theory Spec2Isabelle
  imports Main "HOL-Library.Char_ord" "HOL-Library.List_Lexorder"
begin

section \<open>Data model (database.cpp, lines 19-81)\<close>

text \<open>
  Keys, values and transaction ids are \<^verbatim>\<open>std::string\<close>. The order of
  \<^verbatim>\<open>std::map<std::string, _>\<close> is the lexicographic order of the bytes, which is
  the order of \<^typ>\<open>string\<close> given by the two library theories imported above.
\<close>

datatype MutatingInstructionTypes = Put | Erase

text \<open>
  \<^verbatim>\<open>struct DataItem\<close>. A mutex is modelled by whether it is held. Only
  \<^verbatim>\<open>write_mutex\<close> has a field: it is the one mutex that \<^verbatim>\<open>commitTransaction\<close>
  locks and unlocks by hand (\<^verbatim>\<open>lock()\<close>, \<^verbatim>\<open>unlock()\<close>), so its state can outlive a
  call. \<^verbatim>\<open>read_mutex\<close> and a transaction's \<^verbatim>\<open>trans_lock\<close> are only ever taken
  through \<^verbatim>\<open>std::lock_guard\<close>, whose destructor unlocks on every way out of its
  scope; in a sequential run they are free at the entry of every call and have no
  field. One guard outlives its mutex: \<^verbatim>\<open>commitTransaction\<close> erases the transaction at
  lines 364 and 369 while the guard of line 286 still holds its \<^verbatim>\<open>trans_lock\<close>. That
  is an outcome of the commit, \<open>LockErased\<close> below.
\<close>

record DataItem =
  item_value :: string
  write_mutex :: bool
  alive :: bool

text \<open>
  \<^verbatim>\<open>struct Instruction\<close>. The two \<^verbatim>\<open>std::string*\<close> fields are options:
  \<^verbatim>\<open>nullptr\<close> is \<^term>\<open>None\<close>.
\<close>

record Instruction =
  key :: string
  initial_value :: "string option"
  final_value :: "string option"
  instruction_type :: MutatingInstructionTypes

text \<open>
  \<^verbatim>\<open>struct Transaction\<close>. \<^verbatim>\<open>instructions\<close> is a \<^verbatim>\<open>std::map\<close> that the
  commit iterates forwards and backwards: an association list kept in increasing key
  order. The liveness flag is named \<open>trans_alive\<close> (the source calls both flags
  \<^verbatim>\<open>alive\<close>).
\<close>

record Transaction =
  instructions :: "(string \<times> Instruction) list"
  trans_alive :: bool

text \<open>
  \<^verbatim>\<open>struct Database::DatabasePrivate\<close>. Neither \<^verbatim>\<open>data\<close> nor
  \<^verbatim>\<open>transactions\<close> is ever iterated, so both are maps.
\<close>

record Database =
  data :: "string \<rightharpoonup> DataItem"
  transactions :: "string \<rightharpoonup> Transaction"

text \<open>
  What a call can end with besides returning. The first six are the
  \<^verbatim>\<open>std::runtime_error\<close>s of the source, named as the specification names them:
  \<^item> \<open>ZombieKey\<close>: "Put failed on key ...: zombie key" (line 156);
  \<^item> \<open>WriteLost\<close>: "Put failed on key ...: could not complete" (line 169);
  \<^item> \<open>NoSuchTransaction\<close>: lines 197, 222, 268, 282;
  \<^item> \<open>DuplicateTransaction\<close>: line 260;
  \<^item> \<open>CommitFailed\<close>: line 304, after the handler's call of \<^verbatim>\<open>rollbackTransaction\<close>;
  \<^item> \<open>TransactionConflict\<close>: "commits on tampered data" (line 365).

  \<open>OutOfRange\<close> is the \<^verbatim>\<open>std::out_of_range\<close> that \<^verbatim>\<open>map::at\<close> throws on a
  missing key where no handler catches it. \<open>Deadlock\<close> is a call that never returns:
  it locks a mutex that is held, and in a sequential run nobody is left to release
  it. \<open>Undefined\<close> is a dereference of an end iterator or of a null pointer.

  \<open>LockErased\<close> is the end of a commit that ran through its three loops: the
  \<^verbatim>\<open>Transaction\<close>, and with it the \<^verbatim>\<open>trans_lock\<close> that the \<^verbatim>\<open>lock_guard\<close> of
  line 286 holds, is erased from the map (line 364 or 369), and the guard unlocks the
  erased mutex when the function is left. Destroying a mutex that is held is outside
  the contract of \<^verbatim>\<open>std::mutex\<close>, so nothing is defined from the erase on. The
  argument is how the source goes on: \<open>Some TransactionConflict\<close> for the throw of
  line 365, \<open>None\<close> for the plain return after line 369. What the loops did to
  \<^verbatim>\<open>data\<close> before the erase is in the state that comes with it.
\<close>

datatype error =
  ZombieKey | WriteLost | NoSuchTransaction | DuplicateTransaction | CommitFailed
  | TransactionConflict | OutOfRange | Deadlock | Undefined
  | LockErased "error option"

definition empty_db :: Database where
  "empty_db = \<lparr>data = Map.empty, transactions = Map.empty\<rparr>"

section \<open>Helpers (lines 94-140)\<close>

definition dataHasKey :: "Database \<Rightarrow> string \<Rightarrow> bool" where
  "dataHasKey db k = (data db k \<noteq> None)"

definition keyIsAlive :: "Database \<Rightarrow> string \<Rightarrow> bool" where
  "keyIsAlive db k = (case data db k of None \<Rightarrow> False | Some it \<Rightarrow> alive it)"

definition transactionsHasId :: "Database \<Rightarrow> string \<Rightarrow> bool" where
  "transactionsHasId db tid = (transactions db tid \<noteq> None)"

definition transactionIsAlive :: "Database \<Rightarrow> string \<Rightarrow> bool" where
  "transactionIsAlive db tid =
     (case transactions db tid of None \<Rightarrow> False | Some t \<Rightarrow> trans_alive t)"

text \<open>
  \<^verbatim>\<open>transactionHasKey\<close> reads \<^verbatim>\<open>transactions->at(transaction_id)\<close>; every caller
  has looked the transaction up before, so it is given the transaction.
\<close>

definition transactionHasKey :: "Transaction \<Rightarrow> string \<Rightarrow> bool" where
  "transactionHasKey t k = (map_of (instructions t) k \<noteq> None)"

text \<open>
  \<^verbatim>\<open>instructions.emplace(key, inst)\<close>: the pair goes to its place in key order; a key
  that is already there keeps its instruction.
\<close>

fun emplace :: "string \<Rightarrow> Instruction \<Rightarrow> (string \<times> Instruction) list
    \<Rightarrow> (string \<times> Instruction) list" where
  "emplace k i [] = [(k, i)]"
| "emplace k i ((k', i') # rest) =
     (if k < k' then (k, i) # (k', i') # rest
      else if k = k' then (k', i') # rest
      else (k', i') # emplace k i rest)"

text \<open>\<^verbatim>\<open>instructions.at(key)\<close> changed in place by \<open>f\<close>.\<close>

fun modify_at :: "string \<Rightarrow> (Instruction \<Rightarrow> Instruction) \<Rightarrow> (string \<times> Instruction) list
    \<Rightarrow> (string \<times> Instruction) list" where
  "modify_at k f [] = []"
| "modify_at k f ((k', i') # rest) =
     (if k = k' then (k', f i') # rest else (k', i') # modify_at k f rest)"

section \<open>Auto-commit operations\<close>

text \<open>
  Lines 167-169 of \<^verbatim>\<open>put(key, value)\<close>: take \<^verbatim>\<open>write_mutex\<close> of the entry again
  and compare what is stored with what was asked for.
\<close>

definition put_check :: "string \<Rightarrow> string \<Rightarrow> Database \<Rightarrow> (error + unit) \<times> Database" where
  "put_check k v db =
     (case data db k of
        None \<Rightarrow> (Inl OutOfRange, db)
      | Some it \<Rightarrow>
          if write_mutex it then (Inl Deadlock, db)
          else if item_value it \<noteq> v then (Inl WriteLost, db)
          else (Inr (), db))"

text \<open>
  \<^verbatim>\<open>Database::put(key, value)\<close>, lines 151-170. \<^verbatim>\<open>std::lock\<close> of the two
  mutexes of a live entry blocks for ever when \<^verbatim>\<open>write_mutex\<close> is held.
\<close>

definition put :: "string \<Rightarrow> string \<Rightarrow> Database \<Rightarrow> (error + unit) \<times> Database" where
  "put k v db =
     (if dataHasKey db k then
        (if \<not> keyIsAlive db k then (Inl ZombieKey, db)
         else
           (case data db k of
              None \<Rightarrow> (Inl OutOfRange, db)
            | Some it \<Rightarrow>
                if write_mutex it then (Inl Deadlock, db)
                else put_check k v (db\<lparr>data := (data db)(k \<mapsto> it\<lparr>item_value := v\<rparr>)\<rparr>)))
      else
        put_check k v
          (db\<lparr>data := (data db)(k \<mapsto> \<lparr>item_value = v, write_mutex = False, alive = True\<rparr>)\<rparr>))"

text \<open>
  \<^verbatim>\<open>Database::get(key)\<close>, lines 201-210: a copy of the value of a live entry, or
  \<^verbatim>\<open>nullptr\<close>. It changes nothing and throws nothing.
\<close>

definition get :: "string \<Rightarrow> Database \<Rightarrow> string option" where
  "get k db =
     (if keyIsAlive db k then
        (case data db k of None \<Rightarrow> None | Some it \<Rightarrow> Some (item_value it))
      else None)"

text \<open>
  \<^verbatim>\<open>Database::erase(key)\<close>, lines 231-240: a live entry is erased once both its
  mutexes are taken, and \<^verbatim>\<open>std::lock\<close> blocks for ever when \<^verbatim>\<open>write_mutex\<close> is
  held; any other key is left alone. The entry goes while the two guards are still in
  scope; the mutexes of an erased entry are not followed any further.
\<close>

definition erase :: "string \<Rightarrow> Database \<Rightarrow> (error + unit) \<times> Database" where
  "erase k db =
     (if keyIsAlive db k then
        (case data db k of
           None \<Rightarrow> (Inl OutOfRange, db)
         | Some it \<Rightarrow>
             if write_mutex it then (Inl Deadlock, db)
             else (Inr (), db\<lparr>data := (data db)(k := None)\<rparr>))
      else (Inr (), db))"

section \<open>Transaction-scoped operations\<close>

text \<open>
  \<^verbatim>\<open>Database::put(key, value, transaction_id)\<close>, lines 172-199. On a key the
  transaction holds already, \<^verbatim>\<open>final_value->assign(value)\<close> goes through the
  pointer. On a new key the snapshot is taken under \<^verbatim>\<open>dataHasKey\<close> (line 190).
\<close>

definition put_tx :: "string \<Rightarrow> string \<Rightarrow> string \<Rightarrow> Database \<Rightarrow> (error + unit) \<times> Database" where
  "put_tx k v tid db =
     (if transactionIsAlive db tid then
        (case transactions db tid of
           None \<Rightarrow> (Inl OutOfRange, db)
         | Some t \<Rightarrow>
             if transactionHasKey t k then
               (case map_of (instructions t) k of
                  None \<Rightarrow> (Inl OutOfRange, db)
                | Some inst \<Rightarrow>
                    (case final_value inst of
                       None \<Rightarrow> (Inl Undefined, db)
                     | Some old \<Rightarrow>
                         (Inr (), db\<lparr>transactions := (transactions db)(tid \<mapsto>
                            t\<lparr>instructions := modify_at k
                              (\<lambda>i. i\<lparr>final_value := Some v, instruction_type := Put\<rparr>)
                              (instructions t)\<rparr>)\<rparr>)))
             else
               (let inst = \<lparr>key = k,
                            initial_value =
                              (if dataHasKey db k
                               then map_option item_value (data db k) else None),
                            final_value = Some v,
                            instruction_type = Put\<rparr>
                in (Inr (), db\<lparr>transactions := (transactions db)(tid \<mapsto>
                      t\<lparr>instructions := emplace k inst (instructions t)\<rparr>)\<rparr>)))
      else (Inl NoSuchTransaction, db))"

text \<open>
  \<^verbatim>\<open>Database::get(key, transaction_id)\<close>, lines 212-229: a copy of
  \<^verbatim>\<open>final_value\<close> when the transaction has an instruction for the key (whatever its
  type), the auto-commit \<^verbatim>\<open>get(key)\<close> when it has none.
\<close>

definition get_tx :: "string \<Rightarrow> string \<Rightarrow> Database \<Rightarrow> error + string option" where
  "get_tx k tid db =
     (if transactionIsAlive db tid then
        (case transactions db tid of
           None \<Rightarrow> Inl OutOfRange
         | Some t \<Rightarrow>
             if transactionHasKey t k then
               (case map_of (instructions t) k of
                  None \<Rightarrow> Inl OutOfRange
                | Some inst \<Rightarrow> Inr (final_value inst))
             else Inr (get k db))
      else Inl NoSuchTransaction)"

text \<open>
  \<^verbatim>\<open>Database::erase(key, transaction_id)\<close>, lines 242-252: the two \<^verbatim>\<open>if\<close>s have
  no \<^verbatim>\<open>else\<close>.
\<close>

definition erase_tx :: "string \<Rightarrow> string \<Rightarrow> Database \<Rightarrow> (error + unit) \<times> Database" where
  "erase_tx k tid db =
     (if transactionsHasId db tid then
        (case transactions db tid of
           None \<Rightarrow> (Inl OutOfRange, db)
         | Some t \<Rightarrow>
             if transactionHasKey t k then
               (Inr (), db\<lparr>transactions := (transactions db)(tid \<mapsto>
                  t\<lparr>instructions := modify_at k (\<lambda>i. i\<lparr>instruction_type := Erase\<rparr>)
                    (instructions t)\<rparr>)\<rparr>)
             else (Inr (), db))
      else (Inr (), db))"

text \<open>\<^verbatim>\<open>Database::createTransaction\<close>, lines 254-262.\<close>

definition createTransaction :: "string \<Rightarrow> Database \<Rightarrow> (error + unit) \<times> Database" where
  "createTransaction tid db =
     (if transactions db tid = None then
        (Inr (), db\<lparr>transactions := (transactions db)(tid \<mapsto>
           \<lparr>instructions = [], trans_alive = True\<rparr>)\<rparr>)
      else (Inl DuplicateTransaction, db))"

text \<open>
  \<^verbatim>\<open>Database::rollbackTransaction\<close>, lines 264-276: the flag is cleared and the
  transaction erased.
\<close>

definition rollbackTransaction :: "string \<Rightarrow> Database \<Rightarrow> (error + unit) \<times> Database" where
  "rollbackTransaction tid db =
     (if transactions db tid = None then (Inl NoSuchTransaction, db)
      else (Inr (), db\<lparr>transactions := (transactions db)(tid := None)\<rparr>))"

section \<open>The commit (lines 278-370)\<close>

text \<open>
  First loop, lines 295-306: \<^verbatim>\<open>write_mutex.lock()\<close> on every instruction whose key is
  alive, in key order. Locking a mutex that is held never returns. The handler of
  \<^verbatim>\<open>std::out_of_range\<close> stands behind \<^verbatim>\<open>data->at\<close> on a key that
  \<^verbatim>\<open>keyIsAlive\<close> has just found; it calls \<^verbatim>\<open>rollbackTransaction\<close>, which takes the
  \<^verbatim>\<open>trans_lock\<close> that the commit holds.
\<close>

fun lock_loop :: "Instruction list \<Rightarrow> Database \<Rightarrow> (error + unit) \<times> Database" where
  "lock_loop [] db = (Inr (), db)"
| "lock_loop (i # rest) db =
     (if keyIsAlive db (key i) then
        (case data db (key i) of
           None \<Rightarrow> (Inl Deadlock, db)
         | Some it \<Rightarrow>
             if write_mutex it then (Inl Deadlock, db)
             else lock_loop rest (db\<lparr>data := (data db)(key i \<mapsto> it\<lparr>write_mutex := True\<rparr>)\<rparr>))
      else lock_loop rest db)"

text \<open>The keys on which the first loop calls \<^verbatim>\<open>lock()\<close>.\<close>

definition acquired_keys :: "Instruction list \<Rightarrow> Database \<Rightarrow> string list" where
  "acquired_keys insts db = map key (filter (\<lambda>i. keyIsAlive db (key i)) insts)"

text \<open>
  The test of lines 318-322, "if DataItem has been modified whatsoever since beginning
  of transaction, fail the commit".
\<close>

definition tampered :: "Database \<Rightarrow> Instruction \<Rightarrow> bool" where
  "tampered db inst =
     ((initial_value inst = None \<and> keyIsAlive db (key inst))
      \<or> (initial_value inst \<noteq> None \<and> \<not> keyIsAlive db (key inst))
      \<or> (initial_value inst \<noteq> None \<and> keyIsAlive db (key inst)
          \<and> map_option item_value (data db (key inst)) \<noteq> initial_value inst))"

text \<open>
  Second loop, lines 312-343, from the instruction it stands at, with the current
  \<^verbatim>\<open>last_key\<close>. It returns whether the iterator reached \<^verbatim>\<open>end()\<close>, and
  \<^verbatim>\<open>last_key\<close>. \<^verbatim>\<open>break\<close> leaves the loop at the first tampered key. An
  \<^verbatim>\<open>Erase\<close> reads \<^verbatim>\<open>data->at(inst.key)\<close> with no test before it.
\<close>

fun exec_loop :: "Instruction list \<Rightarrow> string \<Rightarrow> Database
    \<Rightarrow> (error + bool) \<times> string \<times> Database" where
  "exec_loop [] last_key db = (Inr True, last_key, db)"
| "exec_loop (inst # rest) last_key db =
     (if tampered db inst then (Inr False, last_key, db)
      else
        (case instruction_type inst of
           Put \<Rightarrow>
             (case final_value inst of
                None \<Rightarrow> (Inl Undefined, last_key, db)
              | Some v \<Rightarrow>
                  (case data db (key inst) of
                     Some it \<Rightarrow>
                       exec_loop rest (key inst)
                         (db\<lparr>data := (data db)(key inst \<mapsto> it\<lparr>item_value := v\<rparr>)\<rparr>)
                   | None \<Rightarrow>
                       exec_loop rest (key inst)
                         (db\<lparr>data := (data db)(key inst \<mapsto>
                            \<lparr>item_value = v, write_mutex = False, alive = True\<rparr>)\<rparr>)))
         | Erase \<Rightarrow>
             (case data db (key inst) of
                None \<Rightarrow> (Inl OutOfRange, last_key, db)
              | Some it \<Rightarrow>
                  exec_loop rest (key inst)
                    (db\<lparr>data := (data db)(key inst \<mapsto> it\<lparr>alive := False\<rparr>)\<rparr>))))"

text \<open>
  Lines 346-350, on the instructions in reverse order: step from \<^verbatim>\<open>rbegin()\<close> to the
  instruction of \<^verbatim>\<open>last_key\<close>. Reading \<^verbatim>\<open>rend()\<close> has no defined result.
\<close>

fun step_back :: "string \<Rightarrow> Instruction list \<Rightarrow> Instruction list option" where
  "step_back last_key [] = None"
| "step_back last_key (i # rest) =
     (if key i \<noteq> last_key then step_back last_key rest else Some (i # rest))"

text \<open>
  Third loop, lines 352-360, over what \<open>step_back\<close> left: \<^verbatim>\<open>write_mutex.unlock()\<close> on
  \<^verbatim>\<open>data->at(key)\<close>, whether or not the first loop locked it, then the entry of an
  \<^verbatim>\<open>Erase\<close> is erased. \<^verbatim>\<open>unlock()\<close> leaves the mutex free; on a mutex that is
  not held the call is outside the contract of \<^verbatim>\<open>std::mutex\<close>, and the model lets the
  run go on with the mutex free, as the run of main.cpp does after its first commit.
\<close>

fun release_loop :: "Instruction list \<Rightarrow> Database \<Rightarrow> (error + unit) \<times> Database" where
  "release_loop [] db = (Inr (), db)"
| "release_loop (i # rest) db =
     (case data db (key i) of
        None \<Rightarrow> (Inl OutOfRange, db)
      | Some it \<Rightarrow>
          (let unlocked = db\<lparr>data := (data db)(key i \<mapsto> it\<lparr>write_mutex := False\<rparr>)\<rparr>
           in release_loop rest
                (if instruction_type i = Erase
                 then unlocked\<lparr>data := (data unlocked)(key i := None)\<rparr>
                 else unlocked)))"

text \<open>
  \<^verbatim>\<open>Database::commitTransaction\<close>. The second liveness test (line 288) is the first
  one again. \<^verbatim>\<open>last_key\<close> starts as the key of \<^verbatim>\<open>instructions.begin()\<close>, which is
  \<^verbatim>\<open>end()\<close> when the transaction has no instruction. An exception that leaves the
  function from inside a loop keeps what the loops have done to \<^verbatim>\<open>data\<close>, and the
  transaction; the guard of line 286 then unlocks a \<^verbatim>\<open>trans_lock\<close> that is still
  there. Both ways out after the third loop (lines 362-369) erase the transaction
  first, under that guard.
\<close>

definition commitTransaction :: "string \<Rightarrow> Database \<Rightarrow> (error + unit) \<times> Database" where
  "commitTransaction tid db =
     (if \<not> transactionIsAlive db tid then (Inl NoSuchTransaction, db)
      else if \<not> transactionIsAlive db tid then (Inr (), db)
      else
        (case transactions db tid of
           None \<Rightarrow> (Inl OutOfRange, db)
         | Some t \<Rightarrow>
             (case lock_loop (map snd (instructions t)) db of
                (Inl e, db1) \<Rightarrow> (Inl e, db1)
              | (Inr u, db1) \<Rightarrow>
                  (case map snd (instructions t) of
                     [] \<Rightarrow> (Inl Undefined, db1)
                   | first # others \<Rightarrow>
                       (case exec_loop (map snd (instructions t)) (key first) db1 of
                          (Inl e, last_key, db2) \<Rightarrow> (Inl e, db2)
                        | (Inr finished, last_key, db2) \<Rightarrow>
                            (case step_back last_key (rev (map snd (instructions t))) of
                               None \<Rightarrow> (Inl Undefined, db2)
                             | Some walk \<Rightarrow>
                                 (case release_loop walk db2 of
                                    (Inl e, db3) \<Rightarrow> (Inl e, db3)
                                  | (Inr u', db3) \<Rightarrow>
                                      if \<not> finished then
                                        (Inl (LockErased (Some TransactionConflict)),
                                         db3\<lparr>transactions := (transactions db3)(tid := None)\<rparr>)
                                      else
                                        (Inl (LockErased None),
                                         db3\<lparr>transactions := (transactions db3)(tid := None)\<rparr>))))))))"

section \<open>States reached through the interface\<close>

text \<open>Whether \<^verbatim>\<open>write_mutex\<close> of the entry of a key is held.\<close>

definition write_held :: "Database \<Rightarrow> string \<Rightarrow> bool" where
  "write_held db k = (case data db k of None \<Rightarrow> False | Some it \<Rightarrow> write_mutex it)"

text \<open>
  Each state below is what a sequence of calls on a fresh \<^verbatim>\<open>Database\<close> leaves, read
  from the innermost call outwards.

  Transaction \<open>t\<close> stages \<open>a\<close> and \<open>b\<close>, both absent; then an auto-commit
  \<^verbatim>\<open>put\<close> creates \<open>b\<close>.
\<close>

definition db_second_key_created :: Database where
  "db_second_key_created =
     snd (put ''b'' ''z''
       (snd (put_tx ''b'' ''y'' ''t''
         (snd (put_tx ''a'' ''x'' ''t''
           (snd (createTransaction ''t'' empty_db)))))))"

text \<open>
  Transaction \<open>t\<close> stages a write to the existing key \<open>a\<close>, then an auto-commit
  \<^verbatim>\<open>erase\<close> removes \<open>a\<close>.
\<close>

definition db_snapshot_then_erased :: Database where
  "db_snapshot_then_erased =
     snd (erase ''a''
       (snd (put_tx ''a'' ''y'' ''t''
         (snd (createTransaction ''t''
           (snd (put ''a'' ''x'' empty_db)))))))"

text \<open>Transaction \<open>t\<close> sets the absent key \<open>a\<close> and then removes it.\<close>

definition db_set_then_removed :: Database where
  "db_set_then_removed =
     snd (erase_tx ''a'' ''t''
       (snd (put_tx ''a'' ''y'' ''t''
         (snd (createTransaction ''t'' empty_db)))))"

text \<open>
  Transaction \<open>t\<close> sets and removes the existing key \<open>a\<close> and the absent key
  \<open>b\<close>, and is committed.
\<close>

definition db_after_failed_erase :: Database where
  "db_after_failed_erase =
     snd (commitTransaction ''t''
       (snd (erase_tx ''b'' ''t''
         (snd (erase_tx ''a'' ''t''
           (snd (put_tx ''b'' ''z'' ''t''
             (snd (put_tx ''a'' ''y'' ''t''
               (snd (createTransaction ''t''
                 (snd (put ''a'' ''x'' empty_db)))))))))))))"

text \<open>Transaction \<open>xyz\<close> stages the absent key \<open>a\<close> (main.cpp, lines 29-30).\<close>

definition db_staged_new_key :: Database where
  "db_staged_new_key =
     snd (put_tx ''a'' ''bar'' ''xyz''
       (snd (createTransaction ''xyz'' empty_db)))"

text \<open>
  Transaction \<open>t\<close> stages \<open>a\<close> (absent) and \<open>b\<close> (present); an auto-commit
  \<^verbatim>\<open>put\<close> creates \<open>a\<close>; the transaction is committed.
\<close>

definition db_before_conflict :: Database where
  "db_before_conflict =
     snd (put ''a'' ''z''
       (snd (put_tx ''b'' ''y'' ''t''
         (snd (put_tx ''a'' ''x'' ''t''
           (snd (createTransaction ''t''
             (snd (put ''b'' ''0'' empty_db)))))))))"

text \<open>
  Transaction \<open>def\<close> stages \<open>b\<close> while \<open>a\<close> holds \<open>bar\<close> (main.cpp, lines 50-54).
\<close>

definition db_other_key_staged :: Database where
  "db_other_key_staged =
     snd (put_tx ''b'' ''foo'' ''def''
       (snd (createTransaction ''def''
         (snd (put ''a'' ''bar'' empty_db)))))"

text \<open>
  Transaction \<open>t\<close> sets and removes the existing key \<open>a\<close>; then an auto-commit
  \<^verbatim>\<open>put\<close> changes \<open>a\<close>.
\<close>

definition db_erase_tampered :: Database where
  "db_erase_tampered =
     snd (put ''a'' ''w''
       (snd (erase_tx ''a'' ''t''
         (snd (put_tx ''a'' ''y'' ''t''
           (snd (createTransaction ''t''
             (snd (put ''a'' ''x'' empty_db)))))))))"

text \<open>
  After the commit of \<open>t\<close> above has ended with \<^verbatim>\<open>std::out_of_range\<close>, a new
  transaction \<open>u\<close> stages \<open>a\<close>.
\<close>

definition db_tombstone_staged :: Database where
  "db_tombstone_staged =
     snd (put_tx ''a'' ''w'' ''u'' (snd (createTransaction ''u'' db_after_failed_erase)))"

text \<open>
  Transaction \<open>t\<close> stages a write to the existing key \<open>a\<close>, then sets and removes
  the absent key \<open>b\<close>; then it is committed.
\<close>

definition db_put_and_erase_staged :: Database where
  "db_put_and_erase_staged =
     snd (erase_tx ''b'' ''t''
       (snd (put_tx ''b'' ''z'' ''t''
         (snd (put_tx ''a'' ''y'' ''t''
           (snd (createTransaction ''t''
             (snd (put ''a'' ''x'' empty_db)))))))))"

definition db_guard_left_held :: Database where
  "db_guard_left_held = snd (commitTransaction ''t'' db_put_and_erase_staged)"

text \<open>No \<^verbatim>\<open>write_mutex\<close> of the store is held.\<close>

definition guards_free :: "Database \<Rightarrow> bool" where
  "guards_free db = (\<forall>k. \<not> write_held db k)"

section \<open>The order of the instructions of a transaction\<close>

text \<open>
  What \<^verbatim>\<open>std::map\<close> keeps of \<^verbatim>\<open>instructions\<close>: the keys increase strictly, and
  every instruction carries the key it is filed under (line 185).
\<close>

definition ordered_instructions :: "(string \<times> Instruction) list \<Rightarrow> bool" where
  "ordered_instructions al =
     (sorted_wrt (<) (map fst al) \<and> map (\<lambda>p. key (snd p)) al = map fst al)"

definition ordered_db :: "Database \<Rightarrow> bool" where
  "ordered_db db = (\<forall>t tr. transactions db t = Some tr \<longrightarrow> ordered_instructions (instructions tr))"

section \<open>The operations one at a time\<close>

lemmas db_defs =
  empty_db_def dataHasKey_def keyIsAlive_def transactionsHasId_def transactionIsAlive_def
  transactionHasKey_def put_check_def put_def get_def erase_def put_tx_def get_tx_def
  erase_tx_def createTransaction_def rollbackTransaction_def commitTransaction_def
  tampered_def acquired_keys_def

lemma put_absent:
  "data db k = None \<Longrightarrow>
   put k v db =
     (Inr (), db\<lparr>data := (data db)(k \<mapsto> \<lparr>item_value = v, write_mutex = False, alive = True\<rparr>)\<rparr>)"
  by (simp add: put_def put_check_def dataHasKey_def)

lemma put_live:
  "data db k = Some it \<Longrightarrow> alive it \<Longrightarrow> \<not> write_mutex it \<Longrightarrow>
   put k v db = (Inr (), db\<lparr>data := (data db)(k \<mapsto> it\<lparr>item_value := v\<rparr>)\<rparr>)"
  by (simp add: put_def put_check_def dataHasKey_def keyIsAlive_def)

lemma put_zombie:
  "data db k = Some it \<Longrightarrow> \<not> alive it \<Longrightarrow> put k v db = (Inl ZombieKey, db)"
  by (simp add: put_def dataHasKey_def keyIsAlive_def)

lemma put_held:
  "data db k = Some it \<Longrightarrow> alive it \<Longrightarrow> write_mutex it \<Longrightarrow> put k v db = (Inl Deadlock, db)"
  by (simp add: put_def dataHasKey_def keyIsAlive_def)

lemma put_never_WriteLost: "fst (put k v db) \<noteq> Inl WriteLost"
  by (simp add: put_def put_check_def dataHasKey_def keyIsAlive_def split: option.splits)

lemma put_Inr_entry:
  "put k v db = (Inr (), db') \<Longrightarrow>
   \<exists>it. data db' k = Some it \<and> item_value it = v \<and> alive it \<and> \<not> write_mutex it"
  by (auto simp: put_def put_check_def dataHasKey_def keyIsAlive_def
      split: option.splits if_splits)

lemma erase_not_alive: "\<not> keyIsAlive db k \<Longrightarrow> erase k db = (Inr (), db)"
  by (simp add: erase_def)

lemma erase_live:
  "data db k = Some it \<Longrightarrow> alive it \<Longrightarrow> \<not> write_mutex it \<Longrightarrow>
   erase k db = (Inr (), db\<lparr>data := (data db)(k := None)\<rparr>)"
  by (simp add: erase_def keyIsAlive_def)

lemma erase_held:
  "data db k = Some it \<Longrightarrow> alive it \<Longrightarrow> write_mutex it \<Longrightarrow> erase k db = (Inl Deadlock, db)"
  by (simp add: erase_def keyIsAlive_def)

lemma createTransaction_Inr:
  "createTransaction t db = (Inr (), db1) \<Longrightarrow>
   db1 = db\<lparr>transactions :=
     (transactions db)(t \<mapsto> \<lparr>instructions = [], trans_alive = True\<rparr>)\<rparr>"
  by (auto simp: createTransaction_def split: if_splits)

text \<open>
  The first \<^verbatim>\<open>put\<close> of a key in a transaction: the snapshot is the value of the
  entry whenever the map has one, alive or not.
\<close>

lemma put_tx_new_key:
  "transactions db t = Some tr \<Longrightarrow> trans_alive tr \<Longrightarrow> \<not> transactionHasKey tr k \<Longrightarrow>
   put_tx k v t db =
     (Inr (), db\<lparr>transactions := (transactions db)(t \<mapsto>
        tr\<lparr>instructions :=
          emplace k \<lparr>key = k, initial_value = map_option item_value (data db k),
                     final_value = Some v, instruction_type = Put\<rparr>
            (instructions tr)\<rparr>)\<rparr>)"
  by (cases "data db k") (simp_all add: put_tx_def transactionIsAlive_def dataHasKey_def)

text \<open>
  \<^verbatim>\<open>get(key, transaction_id)\<close> on a staged key gives \<^verbatim>\<open>final_value\<close>; the type of
  the instruction is not read.
\<close>

lemma get_tx_staged:
  "transactions db t = Some tr \<Longrightarrow> trans_alive tr \<Longrightarrow>
   map_of (instructions tr) k = Some inst \<Longrightarrow>
   get_tx k t db = Inr (final_value inst)"
  by (simp add: get_tx_def transactionIsAlive_def transactionHasKey_def)

lemma get_tx_not_staged:
  "transactions db t = Some tr \<Longrightarrow> trans_alive tr \<Longrightarrow> \<not> transactionHasKey tr k \<Longrightarrow>
   get_tx k t db = Inr (get k db)"
  by (simp add: get_tx_def transactionIsAlive_def)

text \<open>
  A transaction id that names no live transaction: four of the five operations throw.
\<close>

lemma not_alive_rejected:
  "\<not> transactionIsAlive db tid \<Longrightarrow>
   put_tx k v tid db = (Inl NoSuchTransaction, db)
   \<and> get_tx k tid db = Inl NoSuchTransaction
   \<and> commitTransaction tid db = (Inl NoSuchTransaction, db)"
  by (simp add: put_tx_def get_tx_def commitTransaction_def)

lemma rollback_unknown:
  "\<not> transactionsHasId db tid \<Longrightarrow> rollbackTransaction tid db = (Inl NoSuchTransaction, db)"
  by (simp add: rollbackTransaction_def transactionsHasId_def)

lemma erase_tx_unknown:
  "\<not> transactionsHasId db tid \<Longrightarrow> erase_tx k tid db = (Inr (), db)"
  by (simp add: erase_tx_def)

text \<open>A transaction without instructions: \<^verbatim>\<open>begin()\<close> is \<^verbatim>\<open>end()\<close> at line 310.\<close>

lemma commit_no_instruction:
  "transactions db t = Some tr \<Longrightarrow> trans_alive tr \<Longrightarrow> instructions tr = [] \<Longrightarrow>
   commitTransaction t db = (Inl Undefined, db)"
  by (simp add: commitTransaction_def transactionIsAlive_def)

section \<open>The first loop of the commit\<close>

lemma keyIsAlive_lock [simp]:
  "data db k = Some it \<Longrightarrow>
   keyIsAlive (db\<lparr>data := (data db)(k \<mapsto> it\<lparr>write_mutex := True\<rparr>)\<rparr>) k' = keyIsAlive db k'"
  by (simp add: keyIsAlive_def)

lemma acquired_keys_lock [simp]:
  "data db k = Some it \<Longrightarrow>
   acquired_keys insts (db\<lparr>data := (data db)(k \<mapsto> it\<lparr>write_mutex := True\<rparr>)\<rparr>)
     = acquired_keys insts db"
  by (simp add: acquired_keys_def)

text \<open>
  When the first loop returns, the entries of the acquired keys are held and nothing
  else has changed.
\<close>

lemma lock_loop_data:
  "lock_loop insts db = (Inr (), db') \<Longrightarrow> distinct (map key insts) \<Longrightarrow>
   data db' k =
     (if k \<in> set (acquired_keys insts db)
      then map_option (\<lambda>it. it\<lparr>write_mutex := True\<rparr>) (data db k)
      else data db k)"
proof (induction insts arbitrary: db)
  case Nil
  then show ?case by (simp add: acquired_keys_def)
next
  case (Cons i rest)
  show ?case
  proof (cases "keyIsAlive db (key i)")
    case False
    with Cons show ?thesis
      by (simp add: acquired_keys_def)
  next
    case True
    then obtain it where it: "data db (key i) = Some it"
      by (auto simp: keyIsAlive_def split: option.splits)
    with Cons.prems True have free: "\<not> write_mutex it"
      by (auto split: if_splits)
    let ?db1 = "db\<lparr>data := (data db)(key i \<mapsto> it\<lparr>write_mutex := True\<rparr>)\<rparr>"
    from Cons.prems True it free have run: "lock_loop rest ?db1 = (Inr (), db')"
      by simp
    from Cons.prems have d: "distinct (map key rest)" and fresh: "key i \<notin> key ` set rest"
      by simp_all
    have acq: "acquired_keys (i # rest) db = key i # acquired_keys rest db"
      using True by (simp add: acquired_keys_def)
    have notin: "key i \<notin> set (acquired_keys rest db)"
      using fresh by (auto simp: acquired_keys_def)
    from Cons.IH [OF run d] it show ?thesis
      using acq notin by (auto simp: it)
  qed
qed

lemma lock_loop_transactions:
  "lock_loop insts db = (r, db') \<Longrightarrow> transactions db' = transactions db"
  by (induction insts arbitrary: db) (auto split: if_splits option.splits)

section \<open>The walk of the third loop\<close>

text \<open>
  When the second loop runs to the end, \<^verbatim>\<open>last_key\<close> is the key of the last
  instruction, and the third loop walks every instruction of the transaction.
\<close>

lemma exec_loop_finished_last_key:
  "exec_loop insts lk db = (Inr True, lk', db') \<Longrightarrow> insts \<noteq> [] \<Longrightarrow> lk' = key (last insts)"
proof (induction insts arbitrary: lk db)
  case Nil
  then show ?case by simp
next
  case (Cons i rest)
  show ?case
  proof (cases "rest = []")
    case True
    with Cons.prems show ?thesis
      by (auto split: if_splits MutatingInstructionTypes.splits option.splits)
  next
    case False
    with Cons.prems Cons.IH show ?thesis
      by (auto split: if_splits MutatingInstructionTypes.splits option.splits)
  qed
qed

lemma step_back_from_last:
  "insts \<noteq> [] \<Longrightarrow> step_back (key (last insts)) (rev insts) = Some (rev insts)"
  by (cases insts rule: rev_cases) simp_all

section \<open>The states of the traces\<close>

lemma reached_second_key_created:
  "db_second_key_created =
     \<lparr>data = [''b'' \<mapsto> \<lparr>item_value = ''z'', write_mutex = False, alive = True\<rparr>],
      transactions = [''t'' \<mapsto> \<lparr>instructions =
        [(''a'', \<lparr>key = ''a'', initial_value = None, final_value = Some ''x'',
                  instruction_type = Put\<rparr>),
         (''b'', \<lparr>key = ''b'', initial_value = None, final_value = Some ''y'',
                  instruction_type = Put\<rparr>)],
        trans_alive = True\<rparr>]\<rparr>"
  by (simp add: db_second_key_created_def db_defs)

lemma reached_snapshot_then_erased:
  "db_snapshot_then_erased =
     \<lparr>data = Map.empty,
      transactions = [''t'' \<mapsto> \<lparr>instructions =
        [(''a'', \<lparr>key = ''a'', initial_value = Some ''x'', final_value = Some ''y'',
                  instruction_type = Put\<rparr>)],
        trans_alive = True\<rparr>]\<rparr>"
  by (simp add: db_snapshot_then_erased_def db_defs)

lemma reached_set_then_removed:
  "db_set_then_removed =
     \<lparr>data = Map.empty,
      transactions = [''t'' \<mapsto> \<lparr>instructions =
        [(''a'', \<lparr>key = ''a'', initial_value = None, final_value = Some ''y'',
                  instruction_type = Erase\<rparr>)],
        trans_alive = True\<rparr>]\<rparr>"
  by (simp add: db_set_then_removed_def db_defs)

lemma reached_after_failed_erase:
  "db_after_failed_erase =
     \<lparr>data = [''a'' \<mapsto> \<lparr>item_value = ''x'', write_mutex = True, alive = False\<rparr>],
      transactions = [''t'' \<mapsto> \<lparr>instructions =
        [(''a'', \<lparr>key = ''a'', initial_value = Some ''x'', final_value = Some ''y'',
                  instruction_type = Erase\<rparr>),
         (''b'', \<lparr>key = ''b'', initial_value = None, final_value = Some ''z'',
                  instruction_type = Erase\<rparr>)],
        trans_alive = True\<rparr>]\<rparr>"
  by (simp add: db_after_failed_erase_def db_defs)

lemma reached_staged_new_key:
  "db_staged_new_key =
     \<lparr>data = Map.empty,
      transactions = [''xyz'' \<mapsto> \<lparr>instructions =
        [(''a'', \<lparr>key = ''a'', initial_value = None, final_value = Some ''bar'',
                  instruction_type = Put\<rparr>)],
        trans_alive = True\<rparr>]\<rparr>"
  by (simp add: db_staged_new_key_def db_defs)

lemma reached_before_conflict:
  "db_before_conflict =
     \<lparr>data = [''b'' \<mapsto> \<lparr>item_value = ''0'', write_mutex = False, alive = True\<rparr>,
              ''a'' \<mapsto> \<lparr>item_value = ''z'', write_mutex = False, alive = True\<rparr>],
      transactions = [''t'' \<mapsto> \<lparr>instructions =
        [(''a'', \<lparr>key = ''a'', initial_value = None, final_value = Some ''x'',
                  instruction_type = Put\<rparr>),
         (''b'', \<lparr>key = ''b'', initial_value = Some ''0'', final_value = Some ''y'',
                  instruction_type = Put\<rparr>)],
        trans_alive = True\<rparr>]\<rparr>"
  by (simp add: db_before_conflict_def db_defs)

text \<open>
  The commit of \<open>t\<close> finds \<open>a\<close> tampered, releases \<open>a\<close> and goes to the throw
  of line 365; the \<^verbatim>\<open>write_mutex\<close> of \<open>b\<close>, locked by the first loop, stays held.
\<close>

lemma commit_before_conflict:
  "commitTransaction ''t'' db_before_conflict =
     (Inl (LockErased (Some TransactionConflict)),
      \<lparr>data = [''b'' \<mapsto> \<lparr>item_value = ''0'', write_mutex = True, alive = True\<rparr>,
               ''a'' \<mapsto> \<lparr>item_value = ''z'', write_mutex = False, alive = True\<rparr>],
       transactions = Map.empty\<rparr>)"
  by (simp add: reached_before_conflict db_defs fun_upd_twist)

lemma reached_tombstone_staged:
  "db_tombstone_staged =
     \<lparr>data = [''a'' \<mapsto> \<lparr>item_value = ''x'', write_mutex = True, alive = False\<rparr>],
      transactions =
        [''t'' \<mapsto> \<lparr>instructions =
           [(''a'', \<lparr>key = ''a'', initial_value = Some ''x'', final_value = Some ''y'',
                     instruction_type = Erase\<rparr>),
            (''b'', \<lparr>key = ''b'', initial_value = None, final_value = Some ''z'',
                     instruction_type = Erase\<rparr>)],
           trans_alive = True\<rparr>,
         ''u'' \<mapsto> \<lparr>instructions =
           [(''a'', \<lparr>key = ''a'', initial_value = Some ''x'', final_value = Some ''w'',
                     instruction_type = Put\<rparr>)],
           trans_alive = True\<rparr>]\<rparr>"
  by (simp add: db_tombstone_staged_def reached_after_failed_erase db_defs)

lemma reached_put_and_erase_staged:
  "db_put_and_erase_staged =
     \<lparr>data = [''a'' \<mapsto> \<lparr>item_value = ''x'', write_mutex = False, alive = True\<rparr>],
      transactions = [''t'' \<mapsto> \<lparr>instructions =
        [(''a'', \<lparr>key = ''a'', initial_value = Some ''x'', final_value = Some ''y'',
                  instruction_type = Put\<rparr>),
         (''b'', \<lparr>key = ''b'', initial_value = None, final_value = Some ''z'',
                  instruction_type = Erase\<rparr>)],
        trans_alive = True\<rparr>]\<rparr>"
  by (simp add: db_put_and_erase_staged_def db_defs)

text \<open>
  The commit of \<open>t\<close> locks \<open>a\<close> in the first loop, publishes \<open>a\<close> in the
  second, and leaves the function at line 337 with \<^verbatim>\<open>std::out_of_range\<close> on
  \<open>b\<close>: the third loop is never reached, \<open>a\<close> is alive and its \<^verbatim>\<open>write_mutex\<close>
  stays held. The transaction is not erased.
\<close>

lemma commit_put_and_erase_staged:
  "commitTransaction ''t'' db_put_and_erase_staged =
     (Inl OutOfRange,
      \<lparr>data = [''a'' \<mapsto> \<lparr>item_value = ''y'', write_mutex = True, alive = True\<rparr>],
       transactions = [''t'' \<mapsto> \<lparr>instructions =
         [(''a'', \<lparr>key = ''a'', initial_value = Some ''x'', final_value = Some ''y'',
                   instruction_type = Put\<rparr>),
          (''b'', \<lparr>key = ''b'', initial_value = None, final_value = Some ''z'',
                   instruction_type = Erase\<rparr>)],
         trans_alive = True\<rparr>]\<rparr>)"
  by (simp add: reached_put_and_erase_staged db_defs)

lemma reached_guard_left_held:
  "data db_guard_left_held ''a''
     = Some \<lparr>item_value = ''y'', write_mutex = True, alive = True\<rparr>"
  by (simp add: db_guard_left_held_def commit_put_and_erase_staged)

lemma reached_other_key_staged:
  "db_other_key_staged =
     \<lparr>data = [''a'' \<mapsto> \<lparr>item_value = ''bar'', write_mutex = False, alive = True\<rparr>],
      transactions = [''def'' \<mapsto> \<lparr>instructions =
        [(''b'', \<lparr>key = ''b'', initial_value = None, final_value = Some ''foo'',
                  instruction_type = Put\<rparr>)],
        trans_alive = True\<rparr>]\<rparr>"
  by (simp add: db_other_key_staged_def db_defs)

lemma reached_erase_tampered:
  "db_erase_tampered =
     \<lparr>data = [''a'' \<mapsto> \<lparr>item_value = ''w'', write_mutex = False, alive = True\<rparr>],
      transactions = [''t'' \<mapsto> \<lparr>instructions =
        [(''a'', \<lparr>key = ''a'', initial_value = Some ''x'', final_value = Some ''y'',
                  instruction_type = Erase\<rparr>)],
        trans_alive = True\<rparr>]\<rparr>"
  by (simp add: db_erase_tampered_def db_defs)

text \<open>
  A commit that fails on its first key still walks that key in the third loop: the
  entry of a tampered \<^verbatim>\<open>Erase\<close> is erased although the commit reports the conflict.
\<close>

lemma tampered_erase_still_erases:
  "commitTransaction ''t'' db_erase_tampered =
     (Inl (LockErased (Some TransactionConflict)),
      \<lparr>data = Map.empty, transactions = Map.empty\<rparr>)"
  by (simp add: reached_erase_tampered db_defs)

section \<open>Ordered instructions are kept\<close>

lemma fst_set_emplace: "set (map fst (emplace k i al)) = insert k (set (map fst al))"
proof (induction al)
  case Nil
  show ?case by simp
next
  case (Cons p rest)
  obtain k' i' where p: "p = (k', i')" by (cases p)
  have "set (map fst (emplace k i ((k', i') # rest)))
      = insert k (insert k' (set (map fst rest)))"
    using Cons.IH by (simp add: insert_commute del: set_map)
  then show ?case
    by (simp add: p del: emplace.simps)
qed

lemma emplace_ordered:
  "ordered_instructions al \<Longrightarrow> key i = k \<Longrightarrow> ordered_instructions (emplace k i al)"
proof (induction al)
  case Nil
  then show ?case by (simp add: ordered_instructions_def)
next
  case (Cons p rest)
  obtain k' i' where p: "p = (k', i')" by (cases p)
  from Cons.prems have rest: "ordered_instructions rest"
    by (simp add: ordered_instructions_def)
  from Cons.IH [OF rest Cons.prems(2)] Cons.prems show ?case
    using fst_set_emplace [of k i rest]
    by (auto simp: ordered_instructions_def p)
qed

lemma fst_modify_at: "map fst (modify_at k f al) = map fst al"
  by (induction al) auto

lemma modify_at_ordered:
  "ordered_instructions al \<Longrightarrow> (\<And>i. key (f i) = key i) \<Longrightarrow>
   ordered_instructions (modify_at k f al)"
  by (induction al) (auto simp: ordered_instructions_def fst_modify_at)

lemma ordered_distinct:
  "ordered_instructions al \<Longrightarrow> distinct (map key (map snd al))"
proof -
  assume o: "ordered_instructions al"
  then have d: "distinct (map fst al)"
    by (simp add: ordered_instructions_def strict_sorted_iff)
  from o have e: "map (\<lambda>p. key (snd p)) al = map fst al"
    unfolding ordered_instructions_def by blast
  have "map key (map snd al) = map (\<lambda>p. key (snd p)) al"
    by (simp add: comp_def)
  with e d show ?thesis
    by (simp only:)
qed

lemma exec_loop_transactions:
  "exec_loop insts lk db = (r, lk', db') \<Longrightarrow> transactions db' = transactions db"
  by (induction insts arbitrary: lk db)
    (auto split: if_splits option.splits MutatingInstructionTypes.splits)

lemma release_loop_transactions:
  "release_loop walk db = (r, db') \<Longrightarrow> transactions db' = transactions db"
  by (induction walk arbitrary: db) (auto split: if_splits option.splits simp: Let_def)

lemma ordered_db_empty: "ordered_db empty_db"
  by (simp add: ordered_db_def empty_db_def)

lemma ordered_db_put: "ordered_db db \<Longrightarrow> ordered_db (snd (put k v db))"
  by (auto simp: ordered_db_def put_def put_check_def split: option.splits)

lemma ordered_db_erase: "ordered_db db \<Longrightarrow> ordered_db (snd (erase k db))"
  by (auto simp: ordered_db_def erase_def split: option.splits)

lemma ordered_db_createTransaction:
  "ordered_db db \<Longrightarrow> ordered_db (snd (createTransaction t db))"
  by (auto simp: ordered_db_def createTransaction_def ordered_instructions_def)

lemma ordered_db_rollbackTransaction:
  "ordered_db db \<Longrightarrow> ordered_db (snd (rollbackTransaction t db))"
  by (auto simp: ordered_db_def rollbackTransaction_def)

lemma ordered_db_put_tx: "ordered_db db \<Longrightarrow> ordered_db (snd (put_tx k v t db))"
  by (auto simp: ordered_db_def put_tx_def Let_def emplace_ordered modify_at_ordered
      split: option.splits if_splits)

lemma ordered_db_erase_tx: "ordered_db db \<Longrightarrow> ordered_db (snd (erase_tx k t db))"
  by (auto simp: ordered_db_def erase_tx_def modify_at_ordered split: option.splits if_splits)

lemma commitTransaction_transactions:
  "transactions (snd (commitTransaction t db)) = transactions db
   \<or> transactions (snd (commitTransaction t db)) = (transactions db)(t := None)"
proof -
  have "transactions db3 = transactions db"
    if "lock_loop insts db = (r1, db1)" "exec_loop insts lk db1 = (r2, lk', db2)"
      "release_loop walk db2 = (r3, db3)" for insts r1 db1 lk r2 lk' db2 walk r3 db3
    using that lock_loop_transactions exec_loop_transactions release_loop_transactions
    by metis
  moreover have "transactions db2 = transactions db"
    if "lock_loop insts db = (r1, db1)" "exec_loop insts lk db1 = (r2, lk', db2)"
    for insts r1 db1 lk r2 lk' db2
    using that lock_loop_transactions exec_loop_transactions by metis
  ultimately show ?thesis
    using lock_loop_transactions
    by (auto simp: commitTransaction_def simp del: exec_loop.simps lock_loop.simps release_loop.simps
        split: option.splits prod.splits sum.splits list.splits)
qed

lemma ordered_db_commitTransaction:
  "ordered_db db \<Longrightarrow> ordered_db (snd (commitTransaction t db))"
  using commitTransaction_transactions [of t db]
  by (auto simp: ordered_db_def split: if_splits)

section \<open>The verdict of the commit\<close>

text \<open>
  The test of the second loop reads liveness and value of the one key of its
  instruction; the first loop and the instructions applied before change neither.
\<close>

lemma tampered_cong:
  "map_option alive (data db' (key i)) = map_option alive (data db (key i)) \<Longrightarrow>
   map_option item_value (data db' (key i)) = map_option item_value (data db (key i)) \<Longrightarrow>
   tampered db' i = tampered db i"
  by (cases "data db (key i)"; cases "data db' (key i)") (auto simp: tampered_def keyIsAlive_def)

lemma tampered_other_key:
  "key i \<noteq> k \<Longrightarrow> tampered (db\<lparr>data := (data db)(k := x)\<rparr>) i = tampered db i"
  by (rule tampered_cong) simp_all

lemma exec_loop_verdict:
  "exec_loop insts lk db = (Inr fin, lk', db') \<Longrightarrow> distinct (map key insts) \<Longrightarrow>
   fin = (\<forall>i \<in> set insts. \<not> tampered db i)"
proof (induction insts arbitrary: lk db)
  case Nil
  then show ?case by simp
next
  case (Cons i rest)
  show ?case
  proof (cases "tampered db i")
    case True
    with Cons.prems show ?thesis by auto
  next
    case False
    from Cons.prems(2) have d: "distinct (map key rest)" and "key i \<notin> key ` set rest"
      by simp_all
    then have fresh: "\<forall>j \<in> set rest. key j \<noteq> key i"
      by (metis imageI)
    from Cons.prems False obtain x where
      run: "exec_loop rest (key i) (db\<lparr>data := (data db)(key i := x)\<rparr>) = (Inr fin, lk', db')"
      by (auto split: MutatingInstructionTypes.splits option.splits)
    from Cons.IH [OF run d]
    have "fin = (\<forall>j \<in> set rest. \<not> tampered (db\<lparr>data := (data db)(key i := x)\<rparr>) j)" .
    with fresh False show ?thesis
      by (auto simp: tampered_other_key)
  qed
qed

lemma lock_loop_tampered:
  assumes "lock_loop insts db = (Inr (), db1)" "distinct (map key insts)"
  shows "tampered db1 i = tampered db i"
proof (rule tampered_cong)
  show "map_option alive (data db1 (key i)) = map_option alive (data db (key i))"
    using lock_loop_data [OF assms, of "key i"] by (cases "data db (key i)") auto
  show "map_option item_value (data db1 (key i)) = map_option item_value (data db (key i))"
    using lock_loop_data [OF assms, of "key i"] by (cases "data db (key i)") auto
qed

lemma lock_loop_error: "lock_loop insts db = (Inl e, db') \<Longrightarrow> e = Deadlock"
  by (induction insts arbitrary: db) (auto split: if_splits option.splits)

lemma exec_loop_error:
  "exec_loop insts lk db = (Inl e, lk', db') \<Longrightarrow> e = Undefined \<or> e = OutOfRange"
  by (induction insts arbitrary: lk db)
    (auto split: if_splits option.splits MutatingInstructionTypes.splits)

lemma release_loop_error: "release_loop walk db = (Inl e, db') \<Longrightarrow> e = OutOfRange"
  by (induction walk arbitrary: db) (auto split: if_splits option.splits simp: Let_def)

lemma commitTransaction_cases:
  assumes tr: "transactions db t = Some tr" and al: "trans_alive tr"
    and l: "lock_loop (map snd (instructions tr)) db = (Inr (), db1)"
    and ne: "map snd (instructions tr) = first # others"
    and e: "exec_loop (map snd (instructions tr)) (key first) db1 = (Inr fin, lk, db2)"
    and s: "step_back lk (rev (map snd (instructions tr))) = Some walk"
    and r: "release_loop walk db2 = (Inr (), db3)"
  shows "commitTransaction t db =
     ((if fin then Inl (LockErased None)
       else Inl (LockErased (Some TransactionConflict))),
      db3\<lparr>transactions := (transactions db3)(t := None)\<rparr>)"
  using assms by (simp add: commitTransaction_def transactionIsAlive_def)

lemma commitTransaction_verdictE:
  assumes c: "fst (commitTransaction t db) = Inl (LockErased (Some TransactionConflict))
      \<or> fst (commitTransaction t db) = Inl (LockErased None)"
    and tr: "transactions db t = Some tr"
  obtains db1 first others fin lk db2 where
    "lock_loop (map snd (instructions tr)) db = (Inr (), db1)"
    "map snd (instructions tr) = first # others"
    "exec_loop (map snd (instructions tr)) (key first) db1 = (Inr fin, lk, db2)"
    "fst (commitTransaction t db) = (if fin then Inl (LockErased None)
       else Inl (LockErased (Some TransactionConflict)))"
proof -
  let ?insts = "map snd (instructions tr)"
  note defs = commitTransaction_def transactionIsAlive_def
  from c tr have al: "trans_alive tr"
    by (auto simp: defs split: if_splits)
  obtain r1 db1 where l: "lock_loop ?insts db = (r1, db1)"
    by (cases "lock_loop ?insts db")
  have r1: "r1 = Inr ()"
  proof (cases r1)
    case (Inl e)
    with l have "e = Deadlock" by (auto dest: lock_loop_error)
    with c tr al l Inl show ?thesis by (simp add: defs)
  qed simp
  obtain first others where ne: "?insts = first # others"
    using c tr al l r1 by (cases ?insts) (simp_all add: defs)
  obtain r2 lk db2 where e: "exec_loop ?insts (key first) db1 = (r2, lk, db2)"
    by (cases "exec_loop ?insts (key first) db1") auto
  have body: "commitTransaction t db =
    (case exec_loop ?insts (key first) db1 of
       (Inl e, last_key, db2) \<Rightarrow> (Inl e, db2)
     | (Inr finished, last_key, db2) \<Rightarrow>
         (case step_back last_key (rev ?insts) of
            None \<Rightarrow> (Inl Undefined, db2)
          | Some walk \<Rightarrow>
              (case release_loop walk db2 of
                 (Inl e, db3) \<Rightarrow> (Inl e, db3)
               | (Inr u', db3) \<Rightarrow>
                   if \<not> finished then
                     (Inl (LockErased (Some TransactionConflict)),
                      db3\<lparr>transactions := (transactions db3)(t := None)\<rparr>)
                   else
                     (Inl (LockErased None),
                      db3\<lparr>transactions := (transactions db3)(t := None)\<rparr>))))"
    using tr al l r1 ne by (simp add: defs)
  obtain fin where r2: "r2 = Inr fin"
  proof (cases r2)
    case (Inl e')
    with e have "e' = Undefined \<or> e' = OutOfRange" by (auto dest: exec_loop_error)
    with c body e Inl show ?thesis by auto
  qed
  obtain walk where s: "step_back lk (rev ?insts) = Some walk"
    using c body e r2 by (cases "step_back lk (rev ?insts)") auto
  obtain r3 db3 where r: "release_loop walk db2 = (r3, db3)"
    by (cases "release_loop walk db2")
  have r3: "r3 = Inr ()"
  proof (cases r3)
    case (Inl e')
    with r have "e' = OutOfRange" by (auto dest: release_loop_error)
    with c body e r2 s r Inl show ?thesis by auto
  qed simp
  have verdict: "fst (commitTransaction t db) = (if fin then Inl (LockErased None)
       else Inl (LockErased (Some TransactionConflict)))"
    using body e r2 s r r3 by simp
  from l r1 have l': "lock_loop ?insts db = (Inr (), db1)"
    by simp
  from e r2 have e': "exec_loop ?insts (key first) db1 = (Inr fin, lk, db2)"
    by simp
  from l' ne e' verdict show thesis
    by (rule that)
qed

text \<open>
  The way the commit goes on after its loops is sound in every state whose instructions
  are ordered: when it goes to the throw of the conflict some staged key is tampered,
  and when it goes to the return none is.
\<close>

lemma commit_verdict_sound:
  assumes o: "ordered_db db" and tr: "transactions db t = Some tr"
  shows "(fst (commitTransaction t db) = Inl (LockErased (Some TransactionConflict))
            \<longrightarrow> (\<exists>i \<in> set (map snd (instructions tr)). tampered db i))
       \<and> (fst (commitTransaction t db) = Inl (LockErased None)
            \<longrightarrow> (\<forall>i \<in> set (map snd (instructions tr)). \<not> tampered db i))"
proof -
  from o tr have "ordered_instructions (instructions tr)"
    unfolding ordered_db_def by blast
  then have d: "distinct (map key (map snd (instructions tr)))"
    by (rule ordered_distinct)
  have verdict: "fin = (\<forall>i \<in> set (map snd (instructions tr)). \<not> tampered db i)"
    if l: "lock_loop (map snd (instructions tr)) db = (Inr (), db1)"
    and e: "exec_loop (map snd (instructions tr)) lk db1 = (Inr fin, lk', db2)"
    for db1 lk fin lk' db2
    using exec_loop_verdict [OF e d] lock_loop_tampered [OF l d] by simp
  show ?thesis
  proof (intro conjI impI)
    assume c: "fst (commitTransaction t db) = Inl (LockErased (Some TransactionConflict))"
    then have "fst (commitTransaction t db) = Inl (LockErased (Some TransactionConflict))
        \<or> fst (commitTransaction t db) = Inl (LockErased None)" ..
    from this tr obtain db1 first others fin lk db2 where
      l: "lock_loop (map snd (instructions tr)) db = (Inr (), db1)" and
      "map snd (instructions tr) = first # others" and
      e: "exec_loop (map snd (instructions tr)) (key first) db1 = (Inr fin, lk, db2)" and
      v: "fst (commitTransaction t db) = (if fin then Inl (LockErased None)
       else Inl (LockErased (Some TransactionConflict)))"
      by (rule commitTransaction_verdictE)
    from c v have "\<not> fin"
      by (cases fin) simp_all
    with verdict [OF l e] show "\<exists>i \<in> set (map snd (instructions tr)). tampered db i"
      by blast
  next
    assume c: "fst (commitTransaction t db) = Inl (LockErased None)"
    then have "fst (commitTransaction t db) = Inl (LockErased (Some TransactionConflict))
        \<or> fst (commitTransaction t db) = Inl (LockErased None)" ..
    from this tr obtain db1 first others fin lk db2 where
      l: "lock_loop (map snd (instructions tr)) db = (Inr (), db1)" and
      "map snd (instructions tr) = first # others" and
      e: "exec_loop (map snd (instructions tr)) (key first) db1 = (Inr fin, lk, db2)" and
      v: "fst (commitTransaction t db) = (if fin then Inl (LockErased None)
       else Inl (LockErased (Some TransactionConflict)))"
      by (rule commitTransaction_verdictE)
    from c v have fin
      by (cases fin) simp_all
    with verdict [OF l e] show "\<forall>i \<in> set (map snd (instructions tr)). \<not> tampered db i"
      by blast
  qed
qed

section \<open>A transaction of one instruction\<close>

text \<open>
  \<^verbatim>\<open>createTransaction(t); put(k, v, t); commitTransaction(t); get(k)\<close> on a key that
  is absent, or alive with a free \<^verbatim>\<open>write_mutex\<close>: the commit runs to the return of
  line 369, the value is published and the transaction is gone.
\<close>

lemma commit_single_put:
  assumes fresh: "transactions db t = None"
    and free: "data db k = None \<or> (keyIsAlive db k \<and> \<not> write_held db k)"
  shows "\<exists>db'. commitTransaction t (snd (put_tx k v t (snd (createTransaction t db))))
             = (Inl (LockErased None), db')
           \<and> get k db' = Some v \<and> transactions db' t = None"
proof (cases "data db k")
  case None
  with fresh show ?thesis
    by (simp add: db_defs)
next
  case (Some it)
  with free have "alive it" "\<not> write_mutex it"
    by (simp_all add: keyIsAlive_def write_held_def)
  with fresh Some show ?thesis
    by (simp add: db_defs)
qed

section \<open>Auto-commit put and erase while no guard is held\<close>

text \<open>
  \<^verbatim>\<open>put\<close> on an absent key, or on a live key whose \<^verbatim>\<open>write_mutex\<close> is free,
  returns normally and the \<^verbatim>\<open>get\<close> that follows returns the value.
\<close>

lemma put_then_get_when_free:
  assumes "\<not> dataHasKey db k \<or> (keyIsAlive db k \<and> \<not> write_held db k)"
  shows "\<exists>db'. put k v db = (Inr (), db') \<and> get k db' = Some v"
proof (cases "data db k")
  case None
  then show ?thesis
    by (simp add: put_absent get_def keyIsAlive_def)
next
  case (Some it)
  with assms have "alive it" "\<not> write_mutex it"
    by (simp_all add: dataHasKey_def keyIsAlive_def write_held_def)
  with Some show ?thesis
    by (simp add: put_live get_def keyIsAlive_def)
qed

text \<open>
  \<^verbatim>\<open>erase\<close> twice returns normally both times unless the key is alive with its
  \<^verbatim>\<open>write_mutex\<close> held.
\<close>

lemma erase_twice_when_free:
  assumes h: "\<not> (keyIsAlive db k \<and> write_held db k)"
  shows "\<exists>db1. erase k db = (Inr (), db1) \<and> erase k db1 = (Inr (), db1)"
proof (cases "keyIsAlive db k")
  case False
  then show ?thesis
    by (simp add: erase_not_alive)
next
  case True
  then obtain it where it: "data db k = Some it" "alive it"
    by (auto simp: keyIsAlive_def split: option.splits)
  with h True have "\<not> write_mutex it"
    by (simp add: write_held_def)
  with it have "erase k db = (Inr (), db\<lparr>data := (data db)(k := None)\<rparr>)"
    by (simp add: erase_live)
  moreover have "\<not> keyIsAlive (db\<lparr>data := (data db)(k := None)\<rparr>) k"
    by (simp add: keyIsAlive_def)
  ultimately show ?thesis
    by (simp add: erase_not_alive)
qed

text \<open>
  \<^verbatim>\<open>put\<close>, \<^verbatim>\<open>erase\<close>, \<^verbatim>\<open>get\<close>: whenever the \<^verbatim>\<open>put\<close> comes back, by
  returning or by the zombie-key error, the \<^verbatim>\<open>erase\<close> returns and the key reads
  as absent.
\<close>

lemma put_erase_get:
  assumes "fst (put k v db) \<noteq> Inl Deadlock"
  shows "\<exists>db2. erase k (snd (put k v db)) = (Inr (), db2) \<and> get k db2 = None"
proof (cases "data db k")
  case None
  then show ?thesis
    by (simp add: put_absent erase_live get_def keyIsAlive_def)
next
  case (Some it)
  show ?thesis
  proof (cases "alive it")
    case False
    with Some show ?thesis
      by (simp add: put_zombie erase_not_alive get_def keyIsAlive_def)
  next
    case True
    with Some assms have "\<not> write_mutex it"
      by (auto simp: put_held)
    with Some True show ?thesis
      by (simp add: put_live erase_live get_def keyIsAlive_def)
  qed
qed

text \<open>
  Every operation but the commit keeps all guards free, and with all guards free
  \<^verbatim>\<open>put\<close> and \<^verbatim>\<open>erase\<close> always come back: a sequential run meets a held guard
  only after a \<^verbatim>\<open>commitTransaction\<close>.
\<close>

lemma guards_free_empty: "guards_free empty_db"
  by (simp add: guards_free_def write_held_def empty_db_def)

lemma guards_free_put: "guards_free db \<Longrightarrow> guards_free (snd (put k v db))"
  unfolding guards_free_def write_held_def
  by (auto simp: put_def put_check_def split: option.splits if_splits)

lemma guards_free_erase: "guards_free db \<Longrightarrow> guards_free (snd (erase k db))"
  unfolding guards_free_def write_held_def
  by (auto simp: erase_def split: option.splits if_splits)

lemma data_put_tx: "data (snd (put_tx k v t db)) = data db"
  by (simp add: put_tx_def Let_def split: option.splits)

lemma data_erase_tx: "data (snd (erase_tx k t db)) = data db"
  by (simp add: erase_tx_def split: option.splits)

lemma data_createTransaction: "data (snd (createTransaction t db)) = data db"
  by (simp add: createTransaction_def)

lemma data_rollbackTransaction: "data (snd (rollbackTransaction t db)) = data db"
  by (simp add: rollbackTransaction_def)

lemma guards_free_transaction_ops:
  "guards_free db \<Longrightarrow>
   guards_free (snd (put_tx k v t db)) \<and> guards_free (snd (erase_tx k t db))
   \<and> guards_free (snd (createTransaction t db)) \<and> guards_free (snd (rollbackTransaction t db))"
  by (simp add: guards_free_def write_held_def data_put_tx data_erase_tx
      data_createTransaction data_rollbackTransaction)

lemma guards_free_put_then_get:
  assumes "guards_free db" and "\<not> dataHasKey db k \<or> keyIsAlive db k"
  shows "\<exists>db'. put k v db = (Inr (), db') \<and> get k db' = Some v"
  using assms by (intro put_then_get_when_free) (auto simp: guards_free_def)

lemma guards_free_erase_twice:
  assumes "guards_free db"
  shows "\<exists>db1. erase k db = (Inr (), db1) \<and> erase k db1 = (Inr (), db1)"
  using assms by (intro erase_twice_when_free) (simp add: guards_free_def)

lemma guard_left_held_not_free: "\<not> guards_free db_guard_left_held"
proof
  assume "guards_free db_guard_left_held"
  then have "\<not> write_held db_guard_left_held ''a''"
    by (simp add: guards_free_def)
  then show False
    by (simp add: write_held_def reached_guard_left_held)
qed

text \<open>
  The first commit of main.cpp (lines 29-32): the first loop acquires nothing, the
  second creates \<open>a\<close>, and the third walks the instruction of \<open>a\<close> and unlocks
  the new mutex.
\<close>

lemma release_walks_created_key:
  "acquired_keys
     [\<lparr>key = ''a'', initial_value = None, final_value = Some ''bar'',
       instruction_type = Put\<rparr>] db_staged_new_key = []
   \<and> data (snd (snd (exec_loop
        [\<lparr>key = ''a'', initial_value = None, final_value = Some ''bar'',
          instruction_type = Put\<rparr>] ''a'' db_staged_new_key))) ''a''
       = Some \<lparr>item_value = ''bar'', write_mutex = False, alive = True\<rparr>
   \<and> step_back ''a''
        (rev [\<lparr>key = ''a'', initial_value = None, final_value = Some ''bar'',
               instruction_type = Put\<rparr>])
       = Some [\<lparr>key = ''a'', initial_value = None, final_value = Some ''bar'',
                instruction_type = Put\<rparr>]
   \<and> fst (commitTransaction ''xyz'' db_staged_new_key) = Inl (LockErased None)
   \<and> get ''a'' (snd (commitTransaction ''xyz'' db_staged_new_key)) = Some ''bar''"
  by (simp add: reached_staged_new_key db_defs)

section \<open>The claims\<close>

text \<open>
  Claim C1: a commit that fails with \<open>TransactionConflict\<close> leaves the entries as they
  were before it began (the commit below goes to the throw of line 365). The source applies each instruction as soon as it has passed
  the test and undoes nothing at the break, although the error it throws reads
  "transaction aborted". Transaction \<open>t\<close> staged \<open>a\<close> and
  \<open>b\<close> while both were absent, and \<open>b\<close> was created afterwards: the commit
  publishes \<open>a\<close>, meets the conflict on \<open>b\<close>, and fails; \<open>a\<close>, absent before
  the commit, holds the staged value after it.
\<close>

theorem failed_commit_keeps_applied_prefix:
  "fst (commitTransaction ''t'' db_second_key_created)
     = Inl (LockErased (Some TransactionConflict))
   \<and> data db_second_key_created ''a'' = None
   \<and> get ''a'' db_second_key_created = None
   \<and> data (snd (commitTransaction ''t'' db_second_key_created)) ''a''
       = Some \<lparr>item_value = ''x'', write_mutex = False, alive = True\<rparr>
   \<and> get ''a'' (snd (commitTransaction ''t'' db_second_key_created)) = Some ''x''"
  by (simp add: reached_second_key_created db_defs)

text \<open>
  Claim C2: the commit of a live transaction fails with \<open>TransactionConflict\<close> exactly
  when a staged key is tampered, and succeeds otherwise. The source departs from both
  halves through a \<^verbatim>\<open>data->at\<close> on a key that is not in the map. In the first
  state the only staged key has a snapshot and is no longer alive, which is a conflict,
  and the commit ends with \<^verbatim>\<open>std::out_of_range\<close> from the third loop, the
  transaction still in place. In the second state the only instruction is an
  \<^verbatim>\<open>Erase\<close> of a key that was and is absent, which is no conflict, and the commit
  ends with \<^verbatim>\<open>std::out_of_range\<close> from the second loop.
\<close>

theorem commit_out_of_range_instead_of_verdict:
  "transactionIsAlive db_snapshot_then_erased ''t''
   \<and> tampered db_snapshot_then_erased
        \<lparr>key = ''a'', initial_value = Some ''x'', final_value = Some ''y'',
         instruction_type = Put\<rparr>
   \<and> commitTransaction ''t'' db_snapshot_then_erased
        = (Inl OutOfRange, db_snapshot_then_erased)
   \<and> transactionIsAlive db_set_then_removed ''t''
   \<and> tampered db_set_then_removed
        \<lparr>key = ''a'', initial_value = None, final_value = Some ''y'',
         instruction_type = Erase\<rparr> = False
   \<and> commitTransaction ''t'' db_set_then_removed = (Inl OutOfRange, db_set_then_removed)"
  by (simp add: reached_snapshot_then_erased reached_set_then_removed db_defs)

text \<open>
  Claim C3: inside a transaction, \<^verbatim>\<open>get\<close> of a key whose instruction is a removal
  returns absent. In the source \<^verbatim>\<open>erase(key, transaction_id)\<close> changes the type of
  the instruction and leaves \<^verbatim>\<open>final_value\<close>, and \<^verbatim>\<open>get(key, transaction_id)\<close>
  returns \<^verbatim>\<open>final_value\<close> without reading the type: after \<open>put_tx\<close> and
  \<open>erase_tx\<close> of \<open>a\<close> the instruction is an \<open>Erase\<close> and \<open>get_tx\<close> still
  returns the value that was set.
\<close>

theorem get_tx_after_erase_tx_returns_value:
  "transactions db_set_then_removed ''t'' =
     Some \<lparr>instructions =
       [(''a'', \<lparr>key = ''a'', initial_value = None, final_value = Some ''y'',
                 instruction_type = Erase\<rparr>)],
       trans_alive = True\<rparr>
   \<and> get_tx ''a'' ''t'' db_set_then_removed = Inr (Some ''y'')"
  by (simp add: reached_set_then_removed db_defs)

text \<open>
  Claim C4: the snapshot of a newly staged key is present exactly when the key exists
  and is alive. The source tests \<^verbatim>\<open>dataHasKey\<close>, not \<^verbatim>\<open>keyIsAlive\<close>. The commit
  of \<open>t\<close> ended with \<^verbatim>\<open>std::out_of_range\<close> after it had marked \<open>a\<close> dead, so
  \<open>a\<close> is a tombstone in the map; a new transaction \<open>u\<close> that stages \<open>a\<close>
  takes the value of the tombstone as its snapshot.
\<close>

theorem snapshot_taken_of_tombstone:
  "data db_after_failed_erase ''a''
     = Some \<lparr>item_value = ''x'', write_mutex = True, alive = False\<rparr>
   \<and> keyIsAlive db_after_failed_erase ''a'' = False
   \<and> get ''a'' db_after_failed_erase = None
   \<and> transactions
        (snd (put_tx ''a'' ''w'' ''u'' (snd (createTransaction ''u'' db_after_failed_erase))))
        ''u''
       = Some \<lparr>instructions =
           [(''a'', \<lparr>key = ''a'', initial_value = Some ''x'', final_value = Some ''w'',
                     instruction_type = Put\<rparr>)],
           trans_alive = True\<rparr>"
  by (simp add: reached_after_failed_erase db_defs)

text \<open>
  Claim C5: every transaction-scoped operation on an id that names no live transaction
  fails with \<open>NoSuchTransaction\<close>. \<^verbatim>\<open>erase(key, transaction_id)\<close> has no
  \<^verbatim>\<open>else\<close> for an unknown id: on a fresh database, where no transaction exists, it
  returns normally and changes nothing.
\<close>

theorem erase_tx_unknown_id_returns:
  "transactionsHasId empty_db ''nope'' = False
   \<and> erase_tx ''k'' ''nope'' empty_db = (Inr (), empty_db)"
  by (simp add: db_defs)

text \<open>
  Claim C6: the third loop releases \<^verbatim>\<open>write_mutex\<close> only on keys whose mutex the
  first loop of the same commit acquired. The source unlocks the entry of every
  instruction that \<^verbatim>\<open>release_loop\<close> walks, with no test. Transaction \<open>u\<close> staged
  \<open>a\<close>, which is a tombstone whose \<^verbatim>\<open>write_mutex\<close> is held since the commit of
  \<open>t\<close> ended with \<^verbatim>\<open>std::out_of_range\<close>. In the commit of \<open>u\<close> the first loop
  acquires nothing, since \<open>a\<close> is not alive; the second loop breaks at once; the third
  loop walks the instruction of \<open>a\<close> and unlocks: the mutex of \<open>a\<close>, held before
  the commit, is free after it, without this commit ever having acquired it.
\<close>

theorem release_unlocks_guard_never_acquired:
  "transactions db_tombstone_staged ''u'' =
     Some \<lparr>instructions =
       [(''a'', \<lparr>key = ''a'', initial_value = Some ''x'', final_value = Some ''w'',
                 instruction_type = Put\<rparr>)], trans_alive = True\<rparr>
   \<and> acquired_keys
        [\<lparr>key = ''a'', initial_value = Some ''x'', final_value = Some ''w'',
          instruction_type = Put\<rparr>] db_tombstone_staged = []
   \<and> lock_loop
        [\<lparr>key = ''a'', initial_value = Some ''x'', final_value = Some ''w'',
          instruction_type = Put\<rparr>] db_tombstone_staged = (Inr (), db_tombstone_staged)
   \<and> write_held db_tombstone_staged ''a'' = True
   \<and> exec_loop
        [\<lparr>key = ''a'', initial_value = Some ''x'', final_value = Some ''w'',
          instruction_type = Put\<rparr>] ''a'' db_tombstone_staged
       = (Inr False, ''a'', db_tombstone_staged)
   \<and> step_back ''a''
        (rev [\<lparr>key = ''a'', initial_value = Some ''x'', final_value = Some ''w'',
               instruction_type = Put\<rparr>])
       = Some [\<lparr>key = ''a'', initial_value = Some ''x'', final_value = Some ''w'',
                instruction_type = Put\<rparr>]
   \<and> fst (release_loop
        [\<lparr>key = ''a'', initial_value = Some ''x'', final_value = Some ''w'',
          instruction_type = Put\<rparr>] db_tombstone_staged) = Inr ()
   \<and> write_held (snd (release_loop
        [\<lparr>key = ''a'', initial_value = Some ''x'', final_value = Some ''w'',
          instruction_type = Put\<rparr>] db_tombstone_staged)) ''a'' = False
   \<and> write_held (snd (commitTransaction ''u'' db_tombstone_staged)) ''a'' = False"
  by (simp add: reached_tombstone_staged db_defs write_held_def)

text \<open>
  Claim C7: in a sequential run an auto-commit \<^verbatim>\<open>put\<close> on an existing live key
  always succeeds. The commit of \<open>t\<close> locked the \<^verbatim>\<open>write_mutex\<close> of \<open>a\<close> by
  hand (line 300) and left the function through the \<^verbatim>\<open>std::out_of_range\<close> of line
  337, before the loop that unlocks: \<open>a\<close> is alive, its \<^verbatim>\<open>write_mutex\<close> is held
  with nobody left to release it, and \<^verbatim>\<open>put\<close> on \<open>a\<close> waits for it for ever.
\<close>

theorem put_blocks_on_guard_left_by_commit:
  "fst (commitTransaction ''t'' db_put_and_erase_staged) = Inl OutOfRange
   \<and> keyIsAlive db_guard_left_held ''a''
   \<and> write_held db_guard_left_held ''a''
   \<and> get ''a'' db_guard_left_held = Some ''y''
   \<and> fst (put ''a'' ''v'' db_guard_left_held) = Inl Deadlock"
  by (simp add: commit_put_and_erase_staged reached_guard_left_held put_held keyIsAlive_def
      write_held_def get_def)

text \<open>
  Claim C8: after \<^verbatim>\<open>createTransaction(t)\<close> and a \<^verbatim>\<open>put\<close> of \<open>k\<close> in \<open>t\<close>,
  where \<open>k\<close> is absent from the store, \<^verbatim>\<open>get\<close> in the transaction returns the
  staged value and the auto-commit \<^verbatim>\<open>get\<close> returns absent; and for a key that a live
  transaction has not staged, \<^verbatim>\<open>get\<close> in the transaction returns what the
  auto-commit \<^verbatim>\<open>get\<close> returns.
\<close>

theorem staged_put_visible_only_in_transaction:
  "(createTransaction t db = (Inr (), db1) \<and> \<not> dataHasKey db k \<longrightarrow>
      (\<exists>db2. put_tx k v t db1 = (Inr (), db2)
         \<and> get_tx k t db2 = Inr (Some v) \<and> get k db2 = None))
   \<and> (transactions db' t' = Some tr \<and> trans_alive tr \<and> \<not> transactionHasKey tr k'
        \<longrightarrow> get_tx k' t' db' = Inr (get k' db'))"
proof (intro conjI impI)
  assume h: "createTransaction t db = (Inr (), db1) \<and> \<not> dataHasKey db k"
  define tr0 where "tr0 = \<lparr>instructions = [], trans_alive = True\<rparr>"
  from h have db1: "db1 = db\<lparr>transactions := (transactions db)(t \<mapsto> tr0)\<rparr>"
    unfolding tr0_def by (simp add: createTransaction_Inr)
  have absent: "data db1 k = None"
    using h db1 by (simp add: dataHasKey_def)
  have tr: "transactions db1 t = Some tr0" "trans_alive tr0" "\<not> transactionHasKey tr0 k"
    by (simp_all add: db1 tr0_def transactionHasKey_def)
  define inst where
    "inst = \<lparr>key = k, initial_value = None, final_value = Some v, instruction_type = Put\<rparr>"
  define db2 where
    "db2 = db1\<lparr>transactions := (transactions db1)(t \<mapsto> tr0\<lparr>instructions := [(k, inst)]\<rparr>)\<rparr>"
  have p: "put_tx k v t db1 = (Inr (), db2)"
    using put_tx_new_key [OF tr, of v] absent by (simp add: db2_def inst_def tr0_def)
  have g: "get_tx k t db2 = Inr (Some v)"
    using get_tx_staged [of db2 t "tr0\<lparr>instructions := [(k, inst)]\<rparr>" k inst]
    by (simp add: db2_def tr0_def inst_def)
  have "get k db2 = None"
    using absent by (simp add: db2_def get_def keyIsAlive_def)
  with p g show "\<exists>db2. put_tx k v t db1 = (Inr (), db2)
      \<and> get_tx k t db2 = Inr (Some v) \<and> get k db2 = None"
    by blast
next
  assume "transactions db' t' = Some tr \<and> trans_alive tr \<and> \<not> transactionHasKey tr k'"
  then show "get_tx k' t' db' = Inr (get k' db')"
    by (simp add: get_tx_not_staged)
qed

text \<open>
  The theorem at the calls of main.cpp: lines 20-28 (\<open>abc\<close> stages \<open>a\<close>) on a fresh
  database, and line 54 (\<open>def\<close>, which staged \<open>b\<close>, reads \<open>a\<close>).
\<close>

theorem staged_put_visible_only_in_transaction_witness:
  "(\<exists>db2. put_tx ''a'' ''foo'' ''abc'' (snd (createTransaction ''abc'' empty_db)) = (Inr (), db2)
      \<and> get_tx ''a'' ''abc'' db2 = Inr (Some ''foo'') \<and> get ''a'' db2 = None)
   \<and> get_tx ''a'' ''def'' db_other_key_staged = Inr (Some ''bar'')
   \<and> get ''a'' db_other_key_staged = Some ''bar''"
  using staged_put_visible_only_in_transaction
    [of "''abc''" empty_db "snd (createTransaction ''abc'' empty_db)" "''a''" "''foo''"
      db_other_key_staged "''def''"
      "\<lparr>instructions =
         [(''b'', \<lparr>key = ''b'', initial_value = None, final_value = Some ''foo'',
                   instruction_type = Put\<rparr>)], trans_alive = True\<rparr>" "''a''"]
  by (simp add: reached_other_key_staged db_defs)

text \<open>
  Claim C9: \<^verbatim>\<open>erase\<close> followed by \<^verbatim>\<open>erase\<close> succeeds for every key. After the
  commit of \<open>t\<close> has left the \<^verbatim>\<open>write_mutex\<close> of the live key \<open>a\<close> held (it
  locked it at line 300 and threw at line 337), the first \<^verbatim>\<open>erase\<close> of \<open>a\<close>
  waits for that mutex for ever.
\<close>

theorem erase_blocks_on_guard_left_by_commit:
  "keyIsAlive db_guard_left_held ''a''
   \<and> write_held db_guard_left_held ''a''
   \<and> fst (erase ''a'' db_guard_left_held) = Inl Deadlock
   \<and> snd (erase ''a'' db_guard_left_held) = db_guard_left_held"
  by (simp add: reached_guard_left_held erase_held keyIsAlive_def write_held_def)

text \<open>
  Claim C10: the commit of a live transaction without instructions returns normally,
  changes no entry and erases the transaction. The source reads
  \<^verbatim>\<open>instructions.begin()->second.key\<close> at line 310 whatever the size of the map; for
  a transaction that was created and committed at once this is the end iterator, and
  nothing is defined from there on.
\<close>

theorem commit_of_empty_transaction_undefined:
  "transactions (snd (createTransaction ''t'' empty_db)) ''t''
     = Some \<lparr>instructions = [], trans_alive = True\<rparr>
   \<and> fst (commitTransaction ''t'' (snd (createTransaction ''t'' empty_db))) = Inl Undefined"
  by (simp add: db_defs)

end
